theory Spec2Isabelle
  imports Complex_Main "HOL-Library.Sublist"
begin

section \<open>Python values, exceptions and the calendar\<close>

text \<open>
  The bot (\<^verbatim>\<open>bot.py\<close>) keeps its memory in one JSON file and talks to three services.
  Values that come out of \<^verbatim>\<open>json.load\<close> are modelled as they are in Python: any JSON
  value, not only the \<^verbatim>\<open>list[str]\<close> and \<^verbatim>\<open>str\<close> that the annotations announce.
  A \<^verbatim>\<open>JObject\<close> holds the bindings of the parsed \<^verbatim>\<open>dict\<close>; the lookup takes the
  first binding of a key. A number is the real that the \<^verbatim>\<open>int\<close> or \<^verbatim>\<open>float\<close> stands
  for; the program never computes with one.
\<close>

datatype json =
    JNull
  | JBool bool
  | JNumber real
  | JString string
  | JArray "json list"
  | JObject "(string \<times> json) list"

text \<open>
  The exception classes that the handlers of the source tell apart. All of them are
  instances of \<^verbatim>\<open>Exception\<close>; \<^verbatim>\<open>OtherException\<close> stands for any further class
  (network and service errors of the Reddit and Telegram clients).
\<close>

datatype exn =
    IOError
  | JSONDecodeError
  | UnicodeDecodeError
  | AttributeError
  | TypeError
  | RequestException
  | OtherException string

text \<open>\<^verbatim>\<open>data.get(key, default)\<close>: only a \<^verbatim>\<open>dict\<close> has the method.\<close>

fun dict_get :: "json \<Rightarrow> string \<Rightarrow> json \<Rightarrow> exn + json" where
  "dict_get (JObject kvs) k d = Inr (case map_of kvs k of Some v \<Rightarrow> v | None \<Rightarrow> d)"
| "dict_get JNull k d = Inl AttributeError"
| "dict_get (JBool b) k d = Inl AttributeError"
| "dict_get (JNumber n) k d = Inl AttributeError"
| "dict_get (JString s) k d = Inl AttributeError"
| "dict_get (JArray xs) k d = Inl AttributeError"

text \<open>\<^verbatim>\<open>sub in text\<close> on two strings: \<^verbatim>\<open>sub\<close> occurs in \<^verbatim>\<open>text\<close>.\<close>

fun substring :: "string \<Rightarrow> string \<Rightarrow> bool" where
  "substring sub [] = (sub = [])"
| "substring sub (c # cs) = (take (length sub) (c # cs) = sub \<or> substring sub cs)"

text \<open>
  \<^verbatim>\<open>img not in posted_images\<close> evaluates \<^verbatim>\<open>img in posted_images\<close>: membership by
  equality in a list, substring test in a string, key test in a dict, and a
  \<^verbatim>\<open>TypeError\<close> on a value that is not a container.
\<close>

fun py_in :: "string \<Rightarrow> json \<Rightarrow> exn + bool" where
  "py_in s (JArray xs) = Inr (JString s \<in> set xs)"
| "py_in s (JString t) = Inr (substring s t)"
| "py_in s (JObject kvs) = Inr (s \<in> fst ` set kvs)"
| "py_in s JNull = Inl TypeError"
| "py_in s (JBool b) = Inl TypeError"
| "py_in s (JNumber n) = Inl TypeError"

text \<open>\<^verbatim>\<open>posted_images.append(image_url)\<close>: only a list has the method.\<close>

fun py_append :: "json \<Rightarrow> string \<Rightarrow> exn + json" where
  "py_append (JArray xs) s = Inr (JArray (xs @ [JString s]))"
| "py_append JNull s = Inl AttributeError"
| "py_append (JBool b) s = Inl AttributeError"
| "py_append (JNumber n) s = Inl AttributeError"
| "py_append (JString t) s = Inl AttributeError"
| "py_append (JObject kvs) s = Inl AttributeError"

text \<open>\<^verbatim>\<open>url.endswith(suffix)\<close>, case-sensitive.\<close>

definition endswith :: "string \<Rightarrow> string \<Rightarrow> bool" where
  "endswith s suf = (length suf \<le> length s \<and> drop (length s - length suf) s = suf)"

text \<open>
  Time is the whole number of seconds since the epoch that \<^verbatim>\<open>datetime.now(UTC)\<close>
  reads; both uses in the source drop everything below the day.
  \<^verbatim>\<open>.replace(hour=0, minute=0, second=0, microsecond=0).timestamp()\<close> is the first second
  of the UTC day, and \<^verbatim>\<open>.strftime("%Y-%m-%d")\<close> writes the day in the proleptic Gregorian
  calendar (years of four digits, as \<^verbatim>\<open>datetime\<close> has them).
\<close>

definition day_start :: "int \<Rightarrow> int" where
  "day_start t = 86400 * (t div 86400)"

definition civil_from_days :: "int \<Rightarrow> int \<times> int \<times> int" where
  "civil_from_days days =
     (let z = days + 719468;
          era = z div 146097;
          doe = z - era * 146097;
          yoe = (doe - doe div 1460 + doe div 36524 - doe div 146096) div 365;
          doy = doe - (365 * yoe + yoe div 4 - yoe div 100);
          mp = (5 * doy + 2) div 153;
          d = doy - (153 * mp + 2) div 5 + 1;
          m = (if mp < 10 then mp + 3 else mp - 9);
          y = yoe + era * 400 + (if m \<le> 2 then 1 else 0)
      in (y, m, d))"

definition digit :: "int \<Rightarrow> char" where
  "digit n = ''0123456789'' ! nat (n mod 10)"

definition pad2 :: "int \<Rightarrow> string" where
  "pad2 n = [digit (n div 10), digit n]"

definition pad4 :: "int \<Rightarrow> string" where
  "pad4 n = [digit (n div 1000), digit (n div 100), digit (n div 10), digit n]"

definition utc_date :: "int \<Rightarrow> string" where
  "utc_date t =
     (case civil_from_days (t div 86400) of
        (y, m, d) \<Rightarrow> pad4 y @ ''-'' @ pad2 m @ ''-'' @ pad2 d)"

section \<open>The world outside the program\<close>

text \<open>
  What the disk holds under \<^verbatim>\<open>posted_images.json\<close>, seen through
  \<^verbatim>\<open>open(..., encoding="utf-8")\<close> and \<^verbatim>\<open>json.load\<close>: bytes that are not UTF-8
  (\<^verbatim>\<open>UnicodeDecodeError\<close>), text that is not JSON (\<^verbatim>\<open>JSONDecodeError\<close>; an empty or
  cut-off file is of this kind), or a JSON document.
\<close>

datatype file_content = Undecodable | Malformed | Document json

text \<open>
  Opening the file for writing and dumping into it: the \<^verbatim>\<open>open\<close> raises
  \<^verbatim>\<open>IOError\<close> and leaves the file as it was, or the file is opened (and so truncated)
  and the dump raises \<^verbatim>\<open>IOError\<close>, or the write goes through.
\<close>

datatype write_result = WriteOK | OpenFails | DumpFails

datatype level = INFO | WARNING | ERROR

datatype message =
    LoadError exn
  | SaveError exn
  | NewDayDetected
  | RedditNotInitialized
  | Fetched nat string
  | FetchError string exn
  | PostedImage string
  | ImageFetchFailed string int
  | RequestError string exn
  | TelegramError exn

text \<open>
  What the program does that can be seen from outside, in the order it does it: log
  lines, the retrievability request, the call of \<^verbatim>\<open>bot.send_photo\<close> with its outcome
  (\<^verbatim>\<open>None\<close>: it returned), the append to the in-memory list, and the call of
  \<^verbatim>\<open>save_posted_images\<close>. The photo always goes to the one configured channel
  (\<^verbatim>\<open>TELEGRAM_CHANNEL_ID\<close>), which the events therefore do not carry; the text of a log
  line is kept as its kind and the values put into it.
\<close>

datatype event =
    Log level message
  | HttpGet string
  | SendPhoto string string "exn option"
  | Append string
  | SaveStore json

record post =
  url :: string
  created_utc :: real
  score :: int

text \<open>
  The answers of the outside world. Every call that leaves the program is numbered
  (\<open>step\<close> below), and the answer may depend on the number of the call as well as on
  its arguments, so that a service can fail once and work the next time. A listing is
  the posts that the lazy iterator yields and the exception that ends it, if any.
\<close>

record env =
  reddit_initialized :: bool
  utc_now :: "nat \<Rightarrow> int"
  read_fails :: "nat \<Rightarrow> bool"
  write_result_at :: "nat \<Rightarrow> write_result"
  hot :: "nat \<Rightarrow> string \<Rightarrow> int \<Rightarrow> post list \<times> exn option"
  http_get :: "nat \<Rightarrow> string \<Rightarrow> exn + int"
  send_photo :: "nat \<Rightarrow> string \<Rightarrow> string \<Rightarrow> exn option"

record world =
  step :: nat
  posted_images_file :: "file_content option"
  trace :: "event list"

definition emit :: "event \<Rightarrow> world \<Rightarrow> world" where
  "emit ev w = w\<lparr>trace := trace w @ [ev]\<rparr>"

definition tick :: "world \<Rightarrow> world" where
  "tick w = w\<lparr>step := Suc (step w)\<rparr>"

section \<open>The Dedupe Store\<close>

text \<open>The body of the \<^verbatim>\<open>try\<close> in \<^verbatim>\<open>load_posted_images\<close>.\<close>

definition read_json :: "env \<Rightarrow> nat \<Rightarrow> file_content \<Rightarrow> exn + json" where
  "read_json e k c =
     (if read_fails e k then Inl IOError
      else case c of
             Undecodable \<Rightarrow> Inl UnicodeDecodeError
           | Malformed \<Rightarrow> Inl JSONDecodeError
           | Document j \<Rightarrow> Inr j)"

definition load_body :: "env \<Rightarrow> nat \<Rightarrow> file_content \<Rightarrow> exn + json \<times> json" where
  "load_body e k c =
     (case read_json e k c of
        Inl x \<Rightarrow> Inl x
      | Inr data \<Rightarrow>
          (case dict_get data ''images'' (JArray []) of
             Inl x \<Rightarrow> Inl x
           | Inr images \<Rightarrow>
               (case dict_get data ''date'' (JString '''') of
                  Inl x \<Rightarrow> Inl x
                | Inr date \<Rightarrow> Inr (images, date))))"

text \<open>
  \<^verbatim>\<open>except (json.JSONDecodeError, IOError)\<close>: these two classes are logged and fall
  through to \<^verbatim>\<open>return [], ""\<close>; any other exception leaves the function.
\<close>

definition load_posted_images :: "env \<Rightarrow> world \<Rightarrow> (exn + json \<times> json) \<times> world" where
  "load_posted_images e w =
     (case posted_images_file w of
        None \<Rightarrow> (Inr (JArray [], JString ''''), w)
      | Some c \<Rightarrow>
          (case load_body e (step w) c of
             Inr r \<Rightarrow> (Inr r, tick w)
           | Inl x \<Rightarrow>
               if x = JSONDecodeError \<or> x = IOError
               then (Inr (JArray [], JString ''''), emit (Log ERROR (LoadError x)) (tick w))
               else (Inl x, tick w)))"

text \<open>
  \<^verbatim>\<open>save_posted_images\<close>: the file is opened first, then the date is read from the
  clock, then the object is dumped. \<^verbatim>\<open>except IOError\<close> logs and returns.
\<close>

text \<open>What \<^verbatim>\<open>json.dump({"images": images, "date": ...}, file)\<close> leaves in the file.\<close>

definition dumped :: "json \<Rightarrow> string \<Rightarrow> file_content" where
  "dumped images date = Document (JObject [(''images'', images), (''date'', JString date)])"

definition save_posted_images :: "env \<Rightarrow> json \<Rightarrow> world \<Rightarrow> world" where
  "save_posted_images e images w =
     (let w0 = emit (SaveStore images) w in
      case write_result_at e (step w0) of
        OpenFails \<Rightarrow> emit (Log ERROR (SaveError IOError)) (tick w0)
      | DumpFails \<Rightarrow>
          emit (Log ERROR (SaveError IOError)) ((tick (tick w0))\<lparr>posted_images_file := Some Malformed\<rparr>)
      | WriteOK \<Rightarrow>
          (let date = utc_date (utc_now e (Suc (step w0)))
           in (tick (tick w0))\<lparr>posted_images_file := Some (dumped images date)\<rparr>))"

definition clear_old_images :: "env \<Rightarrow> world \<Rightarrow> (exn + json) \<times> world" where
  "clear_old_images e w =
     (case load_posted_images e w of
        (Inl x, w1) \<Rightarrow> (Inl x, w1)
      | (Inr (stored_images, stored_date), w1) \<Rightarrow>
          (let current_date = utc_date (utc_now e (step w1));
               w2 = tick w1
           in if stored_date \<noteq> JString current_date
              then (Inr (JArray []),
                    save_posted_images e (JArray []) (emit (Log INFO NewDayDetected) w2))
              else (Inr stored_images, w2)))"

section \<open>The Source Fetcher\<close>

definition keeps :: "int \<Rightarrow> int \<Rightarrow> post \<Rightarrow> bool" where
  "keeps current_day_start upvote_threshold p =
     (created_utc p \<ge> of_int current_day_start \<and> score p \<ge> upvote_threshold
      \<and> (endswith (url p) ''.jpg'' \<or> endswith (url p) ''.png'' \<or> endswith (url p) ''.jpeg''))"

definition fetch_images :: "env \<Rightarrow> string \<Rightarrow> int \<Rightarrow> int \<Rightarrow> world \<Rightarrow> string list \<times> world" where
  "fetch_images e subreddit_name upvote_threshold limit w =
     (if reddit_initialized e
      then
        (let current_day_start = day_start (utc_now e (step w));
             w1 = tick w;
             listing = hot e (step w1) subreddit_name limit;
             w2 = tick w1
         in case snd listing of
              Some x \<Rightarrow> ([], emit (Log ERROR (FetchError subreddit_name x)) w2)
            | None \<Rightarrow>
                (let images = map url (filter (keeps current_day_start upvote_threshold) (fst listing))
                 in (images, emit (Log INFO (Fetched (length images) subreddit_name)) w2)))
      else ([], emit (Log ERROR RedditNotInitialized) w))"

section \<open>The Publisher\<close>

text \<open>
  The two handlers of \<^verbatim>\<open>send_image_to_telegram\<close>:
  \<^verbatim>\<open>except requests.RequestException\<close> first, \<^verbatim>\<open>except Exception\<close> for the rest.
\<close>

definition handle_send_error :: "string \<Rightarrow> exn \<Rightarrow> world \<Rightarrow> world" where
  "handle_send_error image_url x w =
     (if x = RequestException then emit (Log ERROR (RequestError image_url x)) w
      else emit (Log ERROR (TelegramError x)) w)"

text \<open>
  The list \<^verbatim>\<open>posted_images\<close> is the caller's object, changed in place; the model
  returns it next to the world.
\<close>

definition send_image_to_telegram ::
    "env \<Rightarrow> string \<Rightarrow> string \<Rightarrow> json \<Rightarrow> world \<Rightarrow> json \<times> world" where
  "send_image_to_telegram e image_url caption posted_images w =
     (let w1 = tick (emit (HttpGet image_url) w) in
      case http_get e (step w) image_url of
        Inl x \<Rightarrow> (posted_images, handle_send_error image_url x w1)
      | Inr status_code \<Rightarrow>
          if status_code = 200
          then
            (let outcome = send_photo e (step w1) image_url caption;
                 w2 = tick (emit (SendPhoto image_url caption outcome) w1)
             in case outcome of
                  Some x \<Rightarrow> (posted_images, handle_send_error image_url x w2)
                | None \<Rightarrow>
                    (case py_append posted_images image_url of
                       Inl x \<Rightarrow> (posted_images, handle_send_error image_url x w2)
                     | Inr posted' \<Rightarrow>
                         (posted',
                          emit (Log INFO (PostedImage image_url))
                            (save_posted_images e posted' (emit (Append image_url) w2)))))
          else (posted_images, emit (Log WARNING (ImageFetchFailed image_url status_code)) w1))"

section \<open>The Orchestrator\<close>

text \<open>The inner loop, \<^verbatim>\<open>for img in images\<close>.\<close>

fun post_images :: "env \<Rightarrow> string \<Rightarrow> string list \<Rightarrow> json \<Rightarrow> world \<Rightarrow> (exn + json) \<times> world" where
  "post_images e subreddit [] posted_images w = (Inr posted_images, w)"
| "post_images e subreddit (img # images) posted_images w =
     (case py_in img posted_images of
        Inl x \<Rightarrow> (Inl x, w)
      | Inr True \<Rightarrow> post_images e subreddit images posted_images w
      | Inr False \<Rightarrow>
          (case send_image_to_telegram e img (''From r/'' @ subreddit) posted_images w of
             (posted', w') \<Rightarrow> post_images e subreddit images posted' w'))"

text \<open>The outer loop, \<^verbatim>\<open>for subreddit in subreddits\<close>.\<close>

fun post_subreddits :: "env \<Rightarrow> string list \<Rightarrow> json \<Rightarrow> world \<Rightarrow> (exn + json) \<times> world" where
  "post_subreddits e [] posted_images w = (Inr posted_images, w)"
| "post_subreddits e (subreddit # subreddits) posted_images w =
     (case fetch_images e subreddit 1000 10 w of
        (images, w1) \<Rightarrow>
          (case post_images e subreddit images posted_images w1 of
             (Inl x, w2) \<Rightarrow> (Inl x, w2)
           | (Inr posted', w2) \<Rightarrow> post_subreddits e subreddits posted' w2))"

definition subreddits :: "string list" where
  "subreddits = [''EarthPorn'', ''spaceporn'', ''Art'']"

definition post_reddit_images :: "env \<Rightarrow> world \<Rightarrow> (exn + json) \<times> world" where
  "post_reddit_images e w =
     (case clear_old_images e w of
        (Inl x, w1) \<Rightarrow> (Inl x, w1)
      | (Inr posted_images, w1) \<Rightarrow> post_subreddits e subreddits posted_images w1)"

text \<open>Several runs, one after the other, on the same disk.\<close>

fun runs :: "env \<Rightarrow> nat \<Rightarrow> world \<Rightarrow> world" where
  "runs e 0 w = w"
| "runs e (Suc n) w = runs e n (snd (post_reddit_images e w))"

section \<open>Reading a trace\<close>

text \<open>The events of \<open>w'\<close> that \<open>w\<close> did not have yet.\<close>

definition since :: "world \<Rightarrow> world \<Rightarrow> event list" where
  "since w w' = drop (length (trace w)) (trace w')"

text \<open>The URLs whose \<^verbatim>\<open>send_photo\<close> returned, and the URLs appended, in order.\<close>

fun sent_urls :: "event list \<Rightarrow> string list" where
  "sent_urls [] = []"
| "sent_urls (SendPhoto u c None # evs) = u # sent_urls evs"
| "sent_urls (ev # evs) = sent_urls evs"

fun appended_urls :: "event list \<Rightarrow> string list" where
  "appended_urls [] = []"
| "appended_urls (Append u # evs) = u # appended_urls evs"
| "appended_urls (ev # evs) = appended_urls evs"

text \<open>The URLs for which \<^verbatim>\<open>send_photo\<close> was called at all, and the lists handed to
  \<^verbatim>\<open>save_posted_images\<close>.\<close>

fun send_calls :: "event list \<Rightarrow> string list" where
  "send_calls [] = []"
| "send_calls (SendPhoto u c r # evs) = u # send_calls evs"
| "send_calls (ev # evs) = send_calls evs"

fun saved :: "event list \<Rightarrow> json list" where
  "saved [] = []"
| "saved (SaveStore images # evs) = images # saved evs"
| "saved (ev # evs) = saved evs"

text \<open>The two updates of the dedupe state: the append and the save.\<close>

fun is_update :: "event \<Rightarrow> bool" where
  "is_update (Append u) = True"
| "is_update (SaveStore images) = True"
| "is_update ev = False"

section \<open>Stores and bookkeeping\<close>

text \<open>
  A store is \<open>list_typed\<close> when its \<^verbatim>\<open>images\<close> field, if the file is a JSON object that
  has one, is a list. Every file that \<^verbatim>\<open>save_posted_images\<close> writes from a list is of
  this kind, and so is a missing, an undecodable or a cut-off file.
\<close>

definition list_typed :: "file_content option \<Rightarrow> bool" where
  "list_typed f =
     (case f of
        Some (Document (JObject kvs)) \<Rightarrow>
          (case map_of kvs ''images'' of
             None \<Rightarrow> True
           | Some (JArray xs) \<Rightarrow> True
           | Some v \<Rightarrow> False)
      | other \<Rightarrow> True)"

text \<open>
  The two predicates below only serve the proofs about the loops. \<open>accounted\<close> says what
  a stretch of the run from the world \<open>w\<close> with the list \<open>xs\<close> to the world \<open>w'\<close> with the
  value \<open>p\<close> has done, \<open>evs\<close> being its events: the sends that succeeded are the URLs
  appended, \<open>p\<close> is \<open>xs\<close> followed by them, they are pairwise different and none was in
  \<open>xs\<close>; the file is untouched when nothing was appended, and holds \<open>p\<close> under the date
  \<open>d\<close> when something was, every write goes through and the clock stays in the day \<open>d\<close>.
  \<open>remembered\<close> says that the file knows the URLs \<open>S\<close> sent so far.
\<close>

definition accounted :: "env \<Rightarrow> string \<Rightarrow> json list \<Rightarrow> world \<Rightarrow> json \<Rightarrow> world \<Rightarrow> event list \<Rightarrow> bool" where
  "accounted e d xs w p w' evs =
     (trace w' = trace w @ evs
      \<and> sent_urls evs = appended_urls evs
      \<and> p = JArray (xs @ map JString (appended_urls evs))
      \<and> distinct (appended_urls evs)
      \<and> (\<forall>u \<in> set (appended_urls evs). JString u \<notin> set xs)
      \<and> (appended_urls evs = [] \<longrightarrow> posted_images_file w' = posted_images_file w)
      \<and> (appended_urls evs \<noteq> [] \<longrightarrow>
            (\<forall>k. write_result_at e k = WriteOK) \<longrightarrow> (\<forall>k. utc_date (utc_now e k) = d) \<longrightarrow>
            posted_images_file w' = Some (dumped p d)))"

definition remembered :: "string \<Rightarrow> string list \<Rightarrow> file_content option \<Rightarrow> bool" where
  "remembered d S f =
     ((S = [] \<and> list_typed f)
      \<or> (\<exists>xs. f = Some (dumped (JArray xs) d) \<and> JString ` set S \<subseteq> set xs))"

section \<open>Example worlds\<close>

text \<open>
  Concrete posts, services and disks on which the theorems below are run. The clock of
  \<open>env_ok\<close> stands at noon of 2 January 2024 (1704196800); that UTC day began at
  1704153600. The listing of \<^verbatim>\<open>EarthPorn\<close> holds one post per way of failing the filter,
  \<^verbatim>\<open>spaceporn\<close> repeats a URL of \<^verbatim>\<open>EarthPorn\<close>, and the listing of \<^verbatim>\<open>Art\<close> ends in an
  exception. \<open>env_read_only\<close> is the same world on a file system that refuses every
  \<^verbatim>\<open>open(..., "w")\<close>; in \<open>env_midnight\<close> the day changes between the third and the fourth
  call.
\<close>

definition post_a :: post where
  "post_a = \<lparr>url = ''https://x/a.jpg'', created_utc = 1704160000, score = 1500\<rparr>"

definition post_low :: post where
  "post_low = \<lparr>url = ''https://x/b.jpg'', created_utc = 1704160000, score = 999\<rparr>"

definition post_gif :: post where
  "post_gif = \<lparr>url = ''https://x/a.gif'', created_utc = 1704160000, score = 5000\<rparr>"

definition post_old :: post where
  "post_old = \<lparr>url = ''https://x/c.png'', created_utc = 1704153599, score = 5000\<rparr>"

definition post_upper :: post where
  "post_upper = \<lparr>url = ''https://x/d.JPG'', created_utc = 1704160000, score = 5000\<rparr>"

definition post_jpeg :: post where
  "post_jpeg = \<lparr>url = ''https://x/e.jpeg'', created_utc = 1704153600, score = 1000\<rparr>"

definition env_ok :: env where
  "env_ok = \<lparr>reddit_initialized = True,
     utc_now = (\<lambda>k. 1704196800),
     read_fails = (\<lambda>k. False),
     write_result_at = (\<lambda>k. WriteOK),
     hot = (\<lambda>k name limit.
        if name = ''EarthPorn'' then ([post_a, post_low, post_gif, post_old, post_upper, post_jpeg], None)
        else if name = ''spaceporn'' then ([post_a], None)
        else ([post_a], Some (OtherException ''ServerError''))),
     http_get = (\<lambda>k u. Inr 200),
     send_photo = (\<lambda>k u c. None)\<rparr>"

definition env_read_only :: env where
  "env_read_only = env_ok\<lparr>write_result_at := (\<lambda>k. OpenFails)\<rparr>"

definition env_not_found :: env where
  "env_not_found = env_ok\<lparr>http_get := (\<lambda>k u. Inr 404)\<rparr>"

definition env_no_reddit :: env where
  "env_no_reddit = env_ok\<lparr>reddit_initialized := False\<rparr>"

definition env_midnight :: env where
  "env_midnight = env_ok\<lparr>utc_now := (\<lambda>k. if k < 3 then 1704153599 else 1704153600)\<rparr>"

definition w_no_file :: world where
  "w_no_file = \<lparr>step = 0, posted_images_file = None, trace = []\<rparr>"

definition w_yesterday :: world where
  "w_yesterday = \<lparr>step = 0,
     posted_images_file = Some (dumped (JArray [JString ''https://x/a.jpg'']) ''2024-01-01''),
     trace = []\<rparr>"

definition w_today :: world where
  "w_today = \<lparr>step = 0,
     posted_images_file = Some (dumped (JArray [JString ''https://x/a.jpg'']) ''2024-01-02''),
     trace = []\<rparr>"

definition w_undecodable :: world where
  "w_undecodable = \<lparr>step = 0, posted_images_file = Some Undecodable, trace = []\<rparr>"

definition w_array :: world where
  "w_array = \<lparr>step = 0, posted_images_file = Some (Document (JArray [])), trace = []\<rparr>"

definition w_string_store :: world where
  "w_string_store = \<lparr>step = 0,
     posted_images_file =
       Some (Document (JObject [(''images'', JString ''seen''), (''date'', JString ''2024-01-02'')])),
     trace = []\<rparr>"

definition w_cut_off :: world where
  "w_cut_off = \<lparr>step = 0, posted_images_file = Some Malformed, trace = []\<rparr>"

section \<open>Basic facts\<close>

lemma step_emit [simp]: "step (emit ev w) = step w"
  and file_emit [simp]: "posted_images_file (emit ev w) = posted_images_file w"
  and trace_emit [simp]: "trace (emit ev w) = trace w @ [ev]"
  by (simp_all add: emit_def)

lemma step_tick [simp]: "step (tick w) = Suc (step w)"
  and file_tick [simp]: "posted_images_file (tick w) = posted_images_file w"
  and trace_tick [simp]: "trace (tick w) = trace w"
  by (simp_all add: tick_def)

lemma since_append [simp]: "trace w' = trace w @ evs \<Longrightarrow> since w w' = evs"
  by (simp add: since_def)

lemma since_self [simp]: "since w w = []"
  by (simp add: since_def)

lemma sent_urls_append [simp]: "sent_urls (xs @ ys) = sent_urls xs @ sent_urls ys"
  by (induction xs rule: sent_urls.induct) simp_all

lemma appended_urls_append [simp]: "appended_urls (xs @ ys) = appended_urls xs @ appended_urls ys"
  by (induction xs rule: appended_urls.induct) simp_all

lemma send_calls_append [simp]: "send_calls (xs @ ys) = send_calls xs @ send_calls ys"
  by (induction xs rule: send_calls.induct) simp_all

lemma saved_append [simp]: "saved (xs @ ys) = saved xs @ saved ys"
  by (induction xs rule: saved.induct) simp_all

text \<open>The date always has ten characters; in particular it is never the empty string.\<close>

lemma utc_date_length: "length (utc_date t) = 10"
  by (simp add: utc_date_def pad4_def pad2_def split: prod.split)

lemma utc_date_nonempty: "utc_date t \<noteq> ''''"
  using utc_date_length [of t] by auto

lemma utc_date_day_start: "utc_date (day_start t) = utc_date t"
  by (simp add: utc_date_def day_start_def)

lemma day_start_bounds: "day_start t \<le> t \<and> t < day_start t + 86400 \<and> day_start t mod 86400 = 0"
proof -
  have "t = 86400 * (t div 86400) + t mod 86400" by simp
  moreover have "0 \<le> t mod 86400" "t mod 86400 < 86400" by simp_all
  ultimately show ?thesis unfolding day_start_def by (simp; linarith)
qed

lemma endswith_suffix: "endswith s suf \<longleftrightarrow> suffix suf s"
proof
  assume "endswith s suf"
  then have "s = take (length s - length suf) s @ suf"
    by (metis append_take_drop_id endswith_def)
  then show "suffix suf s"
    by (metis suffixI)
next
  assume "suffix suf s"
  then obtain zs where "s = zs @ suf"
    by (auto simp: suffix_def)
  then show "endswith s suf"
    by (simp add: endswith_def)
qed

lemma date_2024_01_02: "utc_date 1704196800 = ''2024-01-02''"
  and midnight_2024_01_02: "utc_date 1704153600 = ''2024-01-02''"
  and last_second_2024_01_01: "utc_date 1704153599 = ''2024-01-01''"
  by code_simp+

lemmas post_defs = post_a_def post_low_def post_gif_def post_old_def post_upper_def post_jpeg_def

lemmas run_defs = post_reddit_images_def clear_old_images_def load_posted_images_def load_body_def
  read_json_def save_posted_images_def fetch_images_def send_image_to_telegram_def
  handle_send_error_def subreddits_def keeps_def endswith_def day_start_def dumped_def since_def
  Let_def

section \<open>Facts about the Dedupe Store\<close>

lemma save_trace:
  "\<exists>logs. trace (save_posted_images e images w) = trace w @ SaveStore images # logs
      \<and> sent_urls logs = [] \<and> appended_urls logs = [] \<and> send_calls logs = [] \<and> saved logs = []"
  by (cases "write_result_at e (step w)") (simp_all add: save_posted_images_def Let_def)

lemma save_ok:
  "write_result_at e (step w) = WriteOK \<Longrightarrow>
     posted_images_file (save_posted_images e images w)
       = Some (dumped images (utc_date (utc_now e (Suc (step w)))))"
  by (simp add: save_posted_images_def Let_def)

lemma save_list_typed: "list_typed (posted_images_file (save_posted_images e (JArray xs) w)) \<or>
    posted_images_file (save_posted_images e (JArray xs) w) = posted_images_file w"
  by (cases "write_result_at e (step w)")
     (simp_all add: save_posted_images_def Let_def list_typed_def dumped_def)

lemma load_posted_images_handled:
  assumes "posted_images_file w = None
           \<or> (\<exists>c. posted_images_file w = Some c \<and> read_fails e (step w))
           \<or> posted_images_file w = Some Malformed"
  shows "fst (load_posted_images e w) = Inr (JArray [], JString '''')"
    and "posted_images_file (snd (load_posted_images e w)) = posted_images_file w"
    and "saved (since w (snd (load_posted_images e w))) = []"
  using assms
  by (auto simp: load_posted_images_def load_body_def read_json_def since_def)

lemma load_posted_images_object:
  assumes "posted_images_file w = Some (Document (JObject kvs))" and "\<not> read_fails e (step w)"
  shows "load_posted_images e w
           = (Inr (case map_of kvs ''images'' of Some v \<Rightarrow> v | None \<Rightarrow> JArray [],
                   case map_of kvs ''date'' of Some v \<Rightarrow> v | None \<Rightarrow> JString ''''), tick w)"
  using assms by (simp add: load_posted_images_def load_body_def read_json_def)

lemma load_posted_images_world:
  "posted_images_file (snd (load_posted_images e w)) = posted_images_file w"
  "\<exists>logs. trace (snd (load_posted_images e w)) = trace w @ logs
       \<and> saved logs = [] \<and> sent_urls logs = [] \<and> appended_urls logs = [] \<and> send_calls logs = []"
  by (auto simp: load_posted_images_def split: option.splits sum.splits)

lemma load_list_typed:
  assumes "list_typed (posted_images_file w)" and "fst (load_posted_images e w) = Inr (imgs, date)"
  shows "\<exists>xs. imgs = JArray xs"
proof (cases "posted_images_file w")
  case None
  then show ?thesis
    using assms(2) by (auto simp: load_posted_images_def)
next
  case (Some c)
  show ?thesis
  proof (cases "read_fails e (step w)")
    case True
    then show ?thesis
      using assms(2) Some by (auto simp: load_posted_images_def load_body_def read_json_def)
  next
    case False
    show ?thesis
    proof (cases c)
      case Undecodable
      then show ?thesis
        using assms(2) Some False by (auto simp: load_posted_images_def load_body_def read_json_def)
    next
      case Malformed
      then show ?thesis
        using assms(2) Some False by (auto simp: load_posted_images_def load_body_def read_json_def)
    next
      case (Document j)
      show ?thesis
      proof (cases j)
        case (JObject kvs)
        then show ?thesis
          using assms Some False Document
          by (auto simp: load_posted_images_object list_typed_def split: option.splits json.splits)
      qed (use assms(2) Some False Document in
            \<open>auto simp: load_posted_images_def load_body_def read_json_def\<close>)
    qed
  qed
qed

lemma clear_old_images_world:
  "\<exists>logs. trace (snd (clear_old_images e w)) = trace w @ logs
       \<and> sent_urls logs = [] \<and> appended_urls logs = [] \<and> send_calls logs = []"
proof (cases "load_posted_images e w")
  case (Pair r w1)
  obtain logs where logs: "trace w1 = trace w @ logs" "sent_urls logs = []"
      "appended_urls logs = []" "send_calls logs = []"
    using load_posted_images_world(2) [of e w] Pair by auto
  show ?thesis
  proof (cases r)
    case (Inl x)
    then show ?thesis
      using Pair logs by (simp add: clear_old_images_def)
  next
    case (Inr sd)
    obtain imgs date where sd: "sd = (imgs, date)" by (cases sd)
    show ?thesis
    proof (cases "date = JString (utc_date (utc_now e (step w1)))")
      case True
      then show ?thesis
        using Pair Inr sd logs by (simp add: clear_old_images_def Let_def)
    next
      case False
      obtain logs' where "trace (save_posted_images e (JArray []) (emit (Log INFO NewDayDetected) (tick w1)))
          = trace w @ (logs @ [Log INFO NewDayDetected] @ SaveStore (JArray []) # logs')"
        "sent_urls logs' = []" "appended_urls logs' = []" "send_calls logs' = []"
        using save_trace [of e "JArray []" "emit (Log INFO NewDayDetected) (tick w1)"] logs
        by auto
      then show ?thesis
        using Pair Inr sd logs False
        by (intro exI [of _ "logs @ [Log INFO NewDayDetected] @ SaveStore (JArray []) # logs'"])
           (simp add: clear_old_images_def Let_def)
    qed
  qed
qed

lemma clear_old_images_list:
  assumes "list_typed (posted_images_file w)"
  shows "list_typed (posted_images_file (snd (clear_old_images e w)))"
    and "fst (clear_old_images e w) = Inr p \<Longrightarrow> \<exists>xs. p = JArray xs"
proof -
  obtain r w1 where load: "load_posted_images e w = (r, w1)"
    by (cases "load_posted_images e w")
  have w1: "posted_images_file w1 = posted_images_file w"
    using load_posted_images_world(1) [of e w] load by simp
  have "list_typed (posted_images_file (snd (clear_old_images e w)))
      \<and> (fst (clear_old_images e w) = Inr p \<longrightarrow> (\<exists>xs. p = JArray xs))"
  proof (cases r)
    case (Inl x)
    then show ?thesis
      using load w1 assms by (simp add: clear_old_images_def)
  next
    case (Inr sd)
    obtain imgs date where sd: "sd = (imgs, date)" by (cases sd)
    obtain xs where xs: "imgs = JArray xs"
      using load_list_typed [OF assms, of e imgs date] load Inr sd by auto
    show ?thesis
    proof (cases "date = JString (utc_date (utc_now e (step w1)))")
      case True
      then show ?thesis
        using load Inr sd xs w1 assms by (auto simp: clear_old_images_def Let_def)
    next
      case False
      then show ?thesis
        using load Inr sd w1 assms
          save_list_typed [of e "[]" "emit (Log INFO NewDayDetected) (tick w1)"]
        by (auto simp: clear_old_images_def Let_def)
    qed
  qed
  then show "list_typed (posted_images_file (snd (clear_old_images e w)))"
    and "fst (clear_old_images e w) = Inr p \<Longrightarrow> \<exists>xs. p = JArray xs"
    by simp_all
qed

lemma clear_old_images_same_day:
  assumes "posted_images_file w = Some (dumped (JArray xs) d)"
    and "\<forall>k. \<not> read_fails e k" and "\<forall>k. utc_date (utc_now e k) = d"
  shows "clear_old_images e w = (Inr (JArray xs), tick (tick w))"
  using assms
  by (simp add: clear_old_images_def load_posted_images_def load_body_def read_json_def dumped_def
        Let_def)

text \<open>The two branches of \<^verbatim>\<open>clear_old_images\<close>, from what the load returned.\<close>

lemma clear_old_images_branches:
  assumes "load_posted_images e w = (Inr (stored_images, stored_date), w1)"
  shows "(stored_date = JString (utc_date (utc_now e (step w1))) \<longrightarrow>
            fst (clear_old_images e w) = Inr stored_images
          \<and> saved (since w (snd (clear_old_images e w))) = []
          \<and> posted_images_file (snd (clear_old_images e w)) = posted_images_file w)
       \<and> (stored_date \<noteq> JString (utc_date (utc_now e (step w1))) \<longrightarrow>
            fst (clear_old_images e w) = Inr (JArray [])
          \<and> saved (since w (snd (clear_old_images e w))) = [JArray []]
          \<and> (write_result_at e (Suc (step w1)) = WriteOK \<longrightarrow>
                posted_images_file (snd (clear_old_images e w))
                  = Some (dumped (JArray []) (utc_date (utc_now e (step w1 + 2))))))"
proof -
  from load_posted_images_world [of e w] assms
  obtain logs where w1: "posted_images_file w1 = posted_images_file w"
      "trace w1 = trace w @ logs" "saved logs = []"
    by auto
  show ?thesis
  proof (intro conjI impI)
    assume same: "stored_date = JString (utc_date (utc_now e (step w1)))"
    then have r: "clear_old_images e w = (Inr stored_images, tick w1)"
      using assms by (simp add: clear_old_images_def Let_def)
    show "fst (clear_old_images e w) = Inr stored_images"
      by (simp add: r)
    show "saved (since w (snd (clear_old_images e w))) = []"
      using w1 by (simp add: r)
    show "posted_images_file (snd (clear_old_images e w)) = posted_images_file w"
      using w1 by (simp add: r)
  next
    assume other: "stored_date \<noteq> JString (utc_date (utc_now e (step w1)))"
    then have r: "clear_old_images e w
        = (Inr (JArray []), save_posted_images e (JArray []) (emit (Log INFO NewDayDetected) (tick w1)))"
      using assms by (simp add: clear_old_images_def Let_def)
    show "fst (clear_old_images e w) = Inr (JArray [])"
      by (simp add: r)
    obtain logs' where "trace (snd (clear_old_images e w))
        = trace w @ (logs @ [Log INFO NewDayDetected] @ SaveStore (JArray []) # logs')"
        and "saved logs' = []"
      using save_trace [of e "JArray []" "emit (Log INFO NewDayDetected) (tick w1)"] w1
      by (auto simp: r)
    then show "saved (since w (snd (clear_old_images e w))) = [JArray []]"
      using w1 by simp
    assume "write_result_at e (Suc (step w1)) = WriteOK"
    then show "posted_images_file (snd (clear_old_images e w))
        = Some (dumped (JArray []) (utc_date (utc_now e (step w1 + 2))))"
      by (simp add: r save_ok)
  qed
qed

section \<open>Facts about the Fetcher\<close>

lemma fetch_images_world:
  "\<exists>m. trace (snd (fetch_images e name thr limit w)) = trace w @ [Log (fst m) (snd m)]"
  "posted_images_file (snd (fetch_images e name thr limit w)) = posted_images_file w"
  by (auto simp: fetch_images_def Let_def split: option.splits)

section \<open>Facts about the Publisher\<close>

text \<open>The five ways through \<^verbatim>\<open>send_image_to_telegram\<close>.\<close>

lemma publish_http_error:
  "http_get e (step w) u = Inl x \<Longrightarrow>
     send_image_to_telegram e u c p w = (p, handle_send_error u x (tick (emit (HttpGet u) w)))"
  by (simp add: send_image_to_telegram_def Let_def)

lemma publish_bad_status:
  "http_get e (step w) u = Inr s \<Longrightarrow> s \<noteq> 200 \<Longrightarrow>
     send_image_to_telegram e u c p w
       = (p, emit (Log WARNING (ImageFetchFailed u s)) (tick (emit (HttpGet u) w)))"
  by (simp add: send_image_to_telegram_def Let_def)

lemma publish_send_error:
  "http_get e (step w) u = Inr 200 \<Longrightarrow> send_photo e (Suc (step w)) u c = Some x \<Longrightarrow>
     send_image_to_telegram e u c p w
       = (p, handle_send_error u x (tick (emit (SendPhoto u c (Some x)) (tick (emit (HttpGet u) w)))))"
  by (simp add: send_image_to_telegram_def Let_def)

lemma publish_append_error:
  "http_get e (step w) u = Inr 200 \<Longrightarrow> send_photo e (Suc (step w)) u c = None \<Longrightarrow>
   py_append p u = Inl x \<Longrightarrow>
     send_image_to_telegram e u c p w
       = (p, handle_send_error u x (tick (emit (SendPhoto u c None) (tick (emit (HttpGet u) w)))))"
  by (simp add: send_image_to_telegram_def Let_def)

lemma publish_ok:
  "http_get e (step w) u = Inr 200 \<Longrightarrow> send_photo e (Suc (step w)) u c = None \<Longrightarrow>
   py_append p u = Inr p' \<Longrightarrow>
     send_image_to_telegram e u c p w
       = (p', emit (Log INFO (PostedImage u))
                (save_posted_images e p'
                   (emit (Append u) (tick (emit (SendPhoto u c None) (tick (emit (HttpGet u) w)))))))"
  by (simp add: send_image_to_telegram_def Let_def)

lemma handle_send_error_facts [simp]:
  "step (handle_send_error u x w) = step w"
  "posted_images_file (handle_send_error u x w) = posted_images_file w"
  "\<exists>m. trace (handle_send_error u x w) = trace w @ [Log ERROR m]"
  by (simp_all add: handle_send_error_def)

lemma updates_follow:
  assumes "list_all (\<lambda>ev. \<not> is_update ev) pre" and "\<not> is_update s"
  shows "\<forall>i < length (pre @ s # rest). is_update ((pre @ s # rest) ! i)
           \<longrightarrow> (\<exists>j<i. (pre @ s # rest) ! j = s)"
proof (intro allI impI)
  fix i
  assume i: "i < length (pre @ s # rest)" and upd: "is_update ((pre @ s # rest) ! i)"
  have "\<not> i < length pre"
    using assms(1) upd by (auto simp: list_all_length nth_append)
  moreover have "i \<noteq> length pre"
    using assms(2) upd by auto
  ultimately have "length pre < i" by simp
  moreover have "(pre @ s # rest) ! length pre = s" by simp
  ultimately show "\<exists>j<i. (pre @ s # rest) ! j = s" by blast
qed

lemma no_updates:
  "list_all (\<lambda>ev. \<not> is_update ev) evs \<Longrightarrow>
     \<forall>i < length evs. is_update (evs ! i) \<longrightarrow> (\<exists>j<i. evs ! j = s)"
  by (simp add: list_all_length)

lemma accounted_quiet:
  assumes "trace w' = trace w @ evs" "sent_urls evs = []" "appended_urls evs = []"
    "posted_images_file w' = posted_images_file w"
  shows "accounted e d xs w (JArray xs) w' evs"
  using assms by (simp add: accounted_def)

lemma accounted_trans:
  assumes "accounted e d xs w (JArray ys) w1 evs1" and "accounted e d ys w1 p w2 evs2"
  shows "accounted e d xs w p w2 (evs1 @ evs2)"
  using assms unfolding accounted_def by auto

lemma publish_list:
  assumes "JString u \<notin> set xs"
  shows "\<exists>evs. accounted e d xs w (fst (send_image_to_telegram e u c (JArray xs) w))
                  (snd (send_image_to_telegram e u c (JArray xs) w)) evs"
proof -
  let ?r = "send_image_to_telegram e u c (JArray xs) w"
  consider
      (http_error) x where "http_get e (step w) u = Inl x"
    | (bad_status) s where "http_get e (step w) u = Inr s" "s \<noteq> 200"
    | (send_error) x where "http_get e (step w) u = Inr 200" "send_photo e (Suc (step w)) u c = Some x"
    | (ok) "http_get e (step w) u = Inr 200" "send_photo e (Suc (step w)) u c = None"
    by (cases "http_get e (step w) u"; cases "send_photo e (Suc (step w)) u c") auto
  then show ?thesis
  proof cases
    case http_error
    obtain m where "trace (snd ?r) = trace w @ [HttpGet u, Log ERROR m]"
      using handle_send_error_facts(3) [of u x "tick (emit (HttpGet u) w)"]
      by (auto simp: publish_http_error [OF http_error])
    then have "accounted e d xs w (fst ?r) (snd ?r) [HttpGet u, Log ERROR m]"
      by (simp add: accounted_def publish_http_error [OF http_error])
    then show ?thesis ..
  next
    case bad_status
    have "accounted e d xs w (fst ?r) (snd ?r) [HttpGet u, Log WARNING (ImageFetchFailed u s)]"
      by (simp add: accounted_def publish_bad_status [OF bad_status])
    then show ?thesis ..
  next
    case send_error
    obtain m where "trace (snd ?r) = trace w @ [HttpGet u, SendPhoto u c (Some x), Log ERROR m]"
      using handle_send_error_facts(3)
              [of u x "tick (emit (SendPhoto u c (Some x)) (tick (emit (HttpGet u) w)))"]
      by (auto simp: publish_send_error [OF send_error])
    then have "accounted e d xs w (fst ?r) (snd ?r) [HttpGet u, SendPhoto u c (Some x), Log ERROR m]"
      by (simp add: accounted_def publish_send_error [OF send_error])
    then show ?thesis ..
  next
    case ok
    have app: "py_append (JArray xs) u = Inr (JArray (xs @ [JString u]))" by simp
    note r = publish_ok [OF ok app]
    obtain logs where logs: "trace (snd ?r)
        = trace w @ [HttpGet u, SendPhoto u c None, Append u, SaveStore (JArray (xs @ [JString u]))]
            @ logs @ [Log INFO (PostedImage u)]"
        "sent_urls logs = []" "appended_urls logs = []"
      using save_trace [of e "JArray (xs @ [JString u])"
          "emit (Append u) (tick (emit (SendPhoto u c None) (tick (emit (HttpGet u) w))))"]
      by (auto simp: r)
    have "accounted e d xs w (fst ?r) (snd ?r)
        ([HttpGet u, SendPhoto u c None, Append u, SaveStore (JArray (xs @ [JString u]))]
            @ logs @ [Log INFO (PostedImage u)])"
      unfolding accounted_def using assms logs by (simp, simp add: r save_ok)
    then show ?thesis ..
  qed
qed

section \<open>Facts about the Orchestrator\<close>

lemma post_images_list:
  "\<exists>p evs. post_images e sub imgs (JArray xs) w
             = (Inr p, snd (post_images e sub imgs (JArray xs) w))
         \<and> accounted e d xs w p (snd (post_images e sub imgs (JArray xs) w)) evs"
proof (induction imgs arbitrary: xs w)
  case Nil
  have "accounted e d xs w (JArray xs) w []"
    by (simp add: accounted_quiet)
  then show ?case by auto
next
  case (Cons img imgs)
  show ?case
  proof (cases "JString img \<in> set xs")
    case True
    then have "post_images e sub (img # imgs) (JArray xs) w = post_images e sub imgs (JArray xs) w"
      by simp
    then show ?thesis
      using Cons.IH [of xs w] by simp
  next
    case False
    let ?p = "send_image_to_telegram e img (''From r/'' @ sub) (JArray xs) w"
    have step: "post_images e sub (img # imgs) (JArray xs) w = post_images e sub imgs (fst ?p) (snd ?p)"
      using False by (simp add: case_prod_unfold)
    obtain evs1 where evs1: "accounted e d xs w (fst ?p) (snd ?p) evs1"
      using publish_list [OF False] by blast
    then obtain ys where ys: "fst ?p = JArray ys"
      by (auto simp: accounted_def)
    obtain p evs2 where rest: "post_images e sub imgs (JArray ys) (snd ?p)
          = (Inr p, snd (post_images e sub imgs (JArray ys) (snd ?p)))"
        "accounted e d ys (snd ?p) p (snd (post_images e sub imgs (JArray ys) (snd ?p))) evs2"
      using Cons.IH [of ys "snd ?p"] by blast
    have "accounted e d xs w p (snd (post_images e sub imgs (JArray ys) (snd ?p))) (evs1 @ evs2)"
      using evs1 rest(2) unfolding ys by (rule accounted_trans)
    then show ?thesis
      unfolding step ys using rest(1) by auto
  qed
qed

lemma post_subreddits_list:
  "\<exists>p evs. post_subreddits e subs (JArray xs) w
             = (Inr p, snd (post_subreddits e subs (JArray xs) w))
         \<and> accounted e d xs w p (snd (post_subreddits e subs (JArray xs) w)) evs"
proof (induction subs arbitrary: xs w)
  case Nil
  have "accounted e d xs w (JArray xs) w []"
    by (simp add: accounted_quiet)
  then show ?case by auto
next
  case (Cons sub subs)
  let ?f = "fetch_images e sub 1000 10 w"
  let ?i = "post_images e sub (fst ?f) (JArray xs) (snd ?f)"
  obtain lv lm where "trace (snd ?f) = trace w @ [Log lv lm]"
    using fetch_images_world(1) [of e sub 1000 10 w] by auto
  then have fetch: "accounted e d xs w (JArray xs) (snd ?f) [Log lv lm]"
    by (simp add: accounted_quiet fetch_images_world(2))
  obtain p1 evs1 where inner: "?i = (Inr p1, snd ?i)" "accounted e d xs (snd ?f) p1 (snd ?i) evs1"
    using post_images_list [of e sub "fst ?f" xs "snd ?f" d] by blast
  then obtain ys where ys: "p1 = JArray ys"
    by (auto simp: accounted_def)
  have "fst ?i = Inr (JArray ys)"
    using inner(1) ys by (metis fst_conv)
  then have step: "post_subreddits e (sub # subs) (JArray xs) w = post_subreddits e subs (JArray ys) (snd ?i)"
    by (simp add: case_prod_unfold)
  obtain p evs2 where rest: "post_subreddits e subs (JArray ys) (snd ?i)
        = (Inr p, snd (post_subreddits e subs (JArray ys) (snd ?i)))"
      "accounted e d ys (snd ?i) p (snd (post_subreddits e subs (JArray ys) (snd ?i))) evs2"
    using Cons.IH [of ys "snd ?i"] by blast
  have "accounted e d xs w (JArray ys) (snd ?i) ([Log lv lm] @ evs1)"
    using fetch inner(2) unfolding ys by (rule accounted_trans)
  then have "accounted e d xs w p (snd (post_subreddits e subs (JArray ys) (snd ?i)))
      (([Log lv lm] @ evs1) @ evs2)"
    using rest(2) by (rule accounted_trans)
  then show ?case
    unfolding step using rest(1) by auto
qed

text \<open>One run, from a store whose \<^verbatim>\<open>images\<close> is a list.\<close>

lemma run_once:
  assumes "list_typed (posted_images_file w)"
  shows "\<exists>evs. trace (snd (post_reddit_images e w)) = trace w @ evs
           \<and> distinct (sent_urls evs)
           \<and> (\<forall>xs. fst (clear_old_images e w) = Inr (JArray xs) \<longrightarrow>
                 (\<forall>u \<in> set (sent_urls evs). JString u \<notin> set xs))
           \<and> (sent_urls evs = [] \<longrightarrow>
                 list_typed (posted_images_file (snd (post_reddit_images e w))))
           \<and> (sent_urls evs \<noteq> [] \<longrightarrow>
                 (\<forall>k. write_result_at e k = WriteOK) \<longrightarrow> (\<forall>k. utc_date (utc_now e k) = d) \<longrightarrow>
                 (\<exists>ys. posted_images_file (snd (post_reddit_images e w)) = Some (dumped (JArray ys) d)
                       \<and> JString ` set (sent_urls evs) \<subseteq> set ys))"
proof -
  obtain r w1 where clear: "clear_old_images e w = (r, w1)"
    by (cases "clear_old_images e w")
  obtain logs where logs: "trace w1 = trace w @ logs" "sent_urls logs = []"
    using clear_old_images_world [of e w] clear by auto
  have typed: "list_typed (posted_images_file w1)"
    using clear_old_images_list(1) [OF assms, of e] clear by simp
  show ?thesis
  proof (cases r)
    case (Inl x)
    then have "post_reddit_images e w = (Inl x, w1)"
      using clear by (simp add: post_reddit_images_def)
    then show ?thesis
      using logs typed clear Inl by (intro exI [of _ logs]) simp
  next
    case (Inr p)
    then obtain xs where xs: "p = JArray xs"
      using clear_old_images_list(2) [OF assms, of e p] clear by auto
    let ?run = "post_subreddits e subreddits (JArray xs) w1"
    have run: "post_reddit_images e w = ?run"
      using clear Inr xs by (simp add: post_reddit_images_def)
    obtain q evs where acc: "accounted e d xs w1 q (snd ?run) evs"
      using post_subreddits_list [of e subreddits xs w1 d] by blast
    show ?thesis
      using acc logs typed clear Inr xs unfolding run accounted_def
      by (intro exI [of _ "logs @ evs"]) auto
  qed
qed

text \<open>
  One run among several of the same day, when the disk works: the URLs sent so far are
  in the file, so the run sends none of them again.
\<close>

lemma run_step:
  assumes W: "\<forall>k. write_result_at e k = WriteOK" and R: "\<forall>k. \<not> read_fails e k"
    and D: "\<forall>k. utc_date (utc_now e k) = d"
    and mem: "remembered d S (posted_images_file w)" and dist: "distinct S"
  shows "\<exists>evs. trace (snd (post_reddit_images e w)) = trace w @ evs
           \<and> distinct (S @ sent_urls evs)
           \<and> remembered d (S @ sent_urls evs) (posted_images_file (snd (post_reddit_images e w)))"
proof -
  from mem consider
      (fresh) "S = []" "list_typed (posted_images_file w)"
    | (stored) xs where "posted_images_file w = Some (dumped (JArray xs) d)"
        "JString ` set S \<subseteq> set xs"
    by (auto simp: remembered_def)
  then show ?thesis
  proof cases
    case fresh
    from run_once [OF fresh(2), of e d] obtain evs where
      evs: "trace (snd (post_reddit_images e w)) = trace w @ evs" "distinct (sent_urls evs)"
        "sent_urls evs = [] \<longrightarrow> list_typed (posted_images_file (snd (post_reddit_images e w)))"
        "sent_urls evs \<noteq> [] \<longrightarrow>
           (\<exists>ys. posted_images_file (snd (post_reddit_images e w)) = Some (dumped (JArray ys) d)
                 \<and> JString ` set (sent_urls evs) \<subseteq> set ys)"
      using W D by blast
    have "remembered d (sent_urls evs) (posted_images_file (snd (post_reddit_images e w)))"
      using evs(3,4) unfolding remembered_def by blast
    then show ?thesis
      using evs(1,2) fresh(1) by (intro exI [of _ evs]) simp
  next
    case stored
    let ?w2 = "tick (tick w)"
    let ?run = "post_subreddits e subreddits (JArray xs) ?w2"
    have run: "post_reddit_images e w = ?run"
      using clear_old_images_same_day [OF stored(1) R D]
      by (simp add: post_reddit_images_def)
    obtain q evs where acc: "accounted e d xs ?w2 q (snd ?run) evs"
      using post_subreddits_list [of e subreddits xs ?w2 d] by blast
    have tr: "trace (snd ?run) = trace w @ evs"
      using acc by (simp add: accounted_def)
    have fresh: "\<forall>u \<in> set (sent_urls evs). JString u \<notin> set xs" and dn: "distinct (sent_urls evs)"
      using acc by (simp_all add: accounted_def)
    have "distinct (S @ sent_urls evs)"
      using dist dn fresh stored(2) by auto
    moreover have "remembered d (S @ sent_urls evs) (posted_images_file (snd ?run))"
    proof (cases "sent_urls evs = []")
      case True
      then have "posted_images_file (snd ?run) = posted_images_file w"
        using acc by (simp add: accounted_def)
      then show ?thesis
        using True stored unfolding remembered_def by auto
    next
      case False
      then have "posted_images_file (snd ?run)
          = Some (dumped (JArray (xs @ map JString (sent_urls evs))) d)"
        using acc W D by (simp add: accounted_def)
      then have "\<exists>ys. posted_images_file (snd ?run) = Some (dumped (JArray ys) d)
          \<and> JString ` set (S @ sent_urls evs) \<subseteq> set ys"
        using stored(2) by (intro exI [of _ "xs @ map JString (sent_urls evs)"]) auto
      then show ?thesis
        unfolding remembered_def by blast
    qed
    ultimately show ?thesis
      unfolding run using tr by (intro exI [of _ evs]) simp
  qed
qed

lemma runs_distinct:
  assumes W: "\<forall>k. write_result_at e k = WriteOK" and R: "\<forall>k. \<not> read_fails e k"
    and D: "\<forall>k. utc_date (utc_now e k) = d"
  shows "remembered d S (posted_images_file w) \<Longrightarrow> distinct S \<Longrightarrow>
           \<exists>evs. trace (runs e n w) = trace w @ evs \<and> distinct (S @ sent_urls evs)"
proof (induction n arbitrary: S w)
  case 0
  then show ?case by (intro exI [of _ "[]"]) simp
next
  case (Suc n)
  let ?w1 = "snd (post_reddit_images e w)"
  obtain evs1 where evs1: "trace ?w1 = trace w @ evs1" "distinct (S @ sent_urls evs1)"
      "remembered d (S @ sent_urls evs1) (posted_images_file ?w1)"
    using run_step [OF W R D Suc.prems] by blast
  obtain evs2 where "trace (runs e n ?w1) = trace ?w1 @ evs2"
      "distinct ((S @ sent_urls evs1) @ sent_urls evs2)"
    using Suc.IH [OF evs1(3) evs1(2)] by blast
  then show ?case
    using evs1(1) by (intro exI [of _ "evs1 @ evs2"]) simp
qed

lemma two_runs_ok:
  "sent_urls (since w_no_file (runs env_ok 2 w_no_file)) = [''https://x/a.jpg'', ''https://x/e.jpeg'']"
  by (simp add: numeral_2_eq_2 run_defs env_ok_def w_no_file_def post_defs date_2024_01_02)

section \<open>The claims\<close>

subsection \<open>C1: a URL is sent at most once\<close>

text \<open>
  Claim C1, as amended. Within one run that starts from a store whose \<^verbatim>\<open>images\<close> is a
  list, the URLs for which \<^verbatim>\<open>send_photo\<close> returned are pairwise different, also when a
  URL comes back in the listing of a second community, and none of them was in the list
  that \<^verbatim>\<open>clear_old_images\<close> handed to the run. Over any number of runs of the same UTC
  day the same holds, provided every write and every read of the store file goes through.
\<close>

theorem sent_at_most_once:
  "(list_typed (posted_images_file w) \<longrightarrow>
       distinct (sent_urls (since w (snd (post_reddit_images e w))))
     \<and> (\<forall>xs. fst (clear_old_images e w) = Inr (JArray xs) \<longrightarrow>
          (\<forall>u \<in> set (sent_urls (since w (snd (post_reddit_images e w)))). JString u \<notin> set xs)))
   \<and> (list_typed (posted_images_file w) \<and> (\<forall>k. write_result_at e k = WriteOK)
        \<and> (\<forall>k. \<not> read_fails e k) \<and> (\<forall>k. utc_date (utc_now e k) = d) \<longrightarrow>
       distinct (sent_urls (since w (runs e n w))))"
proof (intro conjI impI)
  assume typed: "list_typed (posted_images_file w)"
  from run_once [OF typed, of e d] obtain evs where
    evs: "trace (snd (post_reddit_images e w)) = trace w @ evs" "distinct (sent_urls evs)"
      "\<forall>xs. fst (clear_old_images e w) = Inr (JArray xs) \<longrightarrow>
          (\<forall>u \<in> set (sent_urls evs). JString u \<notin> set xs)"
    by blast
  from evs(1) have "since w (snd (post_reddit_images e w)) = evs" by simp
  with evs(2,3)
  show "distinct (sent_urls (since w (snd (post_reddit_images e w))))"
    and "\<forall>xs. fst (clear_old_images e w) = Inr (JArray xs) \<longrightarrow>
          (\<forall>u \<in> set (sent_urls (since w (snd (post_reddit_images e w)))). JString u \<notin> set xs)"
    by simp_all
next
  assume H: "list_typed (posted_images_file w) \<and> (\<forall>k. write_result_at e k = WriteOK)
        \<and> (\<forall>k. \<not> read_fails e k) \<and> (\<forall>k. utc_date (utc_now e k) = d)"
  then have "remembered d [] (posted_images_file w)"
    by (simp add: remembered_def)
  with H obtain evs where "trace (runs e n w) = trace w @ evs" "distinct ([] @ sent_urls evs)"
    using runs_distinct [of e d "[]" w n] by auto
  then show "distinct (sent_urls (since w (runs e n w)))"
    by simp
qed

theorem sent_at_most_once_witness:
  "distinct (sent_urls (since w_no_file (snd (post_reddit_images env_ok w_no_file))))
   \<and> distinct (sent_urls (since w_no_file (runs env_ok 2 w_no_file)))
   \<and> sent_urls (since w_no_file (runs env_ok 2 w_no_file)) = [''https://x/a.jpg'', ''https://x/e.jpeg'']"
proof -
  have "list_typed (posted_images_file w_no_file)"
    by (simp add: list_typed_def w_no_file_def)
  moreover have "\<forall>k. write_result_at env_ok k = WriteOK" and "\<forall>k. \<not> read_fails env_ok k"
    and "\<forall>k. utc_date (utc_now env_ok k) = ''2024-01-02''"
    by (simp_all add: env_ok_def date_2024_01_02)
  ultimately show ?thesis
    using sent_at_most_once [of w_no_file env_ok "''2024-01-02''" 2] two_runs_ok
    by simp
qed

text \<open>
  Without the proviso the claim fails: on a file system that refuses the write, the store
  is never created, the second run of the day starts from an empty list again and sends
  both URLs a second time.
\<close>

theorem sent_twice_when_write_fails:
  "sent_urls (since w_no_file (runs env_read_only 2 w_no_file))
     = [''https://x/a.jpg'', ''https://x/e.jpeg'', ''https://x/a.jpg'', ''https://x/e.jpeg'']
   \<and> \<not> distinct (sent_urls (since w_no_file (runs env_read_only 2 w_no_file)))
   \<and> utc_date (utc_now env_read_only 0) = ''2024-01-02''
   \<and> utc_date (utc_now env_read_only (step (runs env_read_only 2 w_no_file))) = ''2024-01-02''"
  by (simp add: numeral_2_eq_2 run_defs env_read_only_def env_ok_def w_no_file_def post_defs
        date_2024_01_02)

text \<open>
  The first half needs its premise. When the \<^verbatim>\<open>images\<close> field of the store is a string,
  the membership test is a substring test and the append raises \<^verbatim>\<open>AttributeError\<close>
  after the send, so nothing is ever remembered: the URL that two communities list is sent
  twice within one run.
\<close>

lemma sent_twice_from_string_store:
  "sent_urls (since w_string_store (snd (post_reddit_images env_ok w_string_store)))
     = [''https://x/a.jpg'', ''https://x/e.jpeg'', ''https://x/a.jpg'']"
  by (simp add: run_defs env_ok_def w_string_store_def post_defs date_2024_01_02)

subsection \<open>C2: what the Fetcher keeps\<close>

text \<open>
  Claim C2, as amended. When the source client is initialized and the listing of the community ends
  without an exception, \<^verbatim>\<open>fetch_images\<close> returns, in the order of the listing, the URL
  of exactly those items that were created at or after the first second of the current
  UTC day, whose score is at least the threshold, and whose URL ends (case-sensitively)
  in \<^verbatim>\<open>.jpg\<close>, \<^verbatim>\<open>.png\<close> or \<^verbatim>\<open>.jpeg\<close>; an item that fails one of the three
  conditions contributes nothing. The instant compared with is a multiple of 86400 seconds
  that lies in the day of the clock reading.
\<close>

theorem fetch_images_filter:
  assumes "reddit_initialized e" and "hot e (Suc (step w)) name limit = (posts, None)"
  shows "fst (fetch_images e name thr limit w)
           = map url (filter (\<lambda>p. of_int (day_start (utc_now e (step w))) \<le> created_utc p
                                  \<and> thr \<le> score p
                                  \<and> (suffix ''.jpg'' (url p) \<or> suffix ''.png'' (url p)
                                       \<or> suffix ''.jpeg'' (url p))) posts)
         \<and> (\<forall>u. u \<in> set (fst (fetch_images e name thr limit w)) \<longleftrightarrow>
                (\<exists>p \<in> set posts. url p = u
                    \<and> of_int (day_start (utc_now e (step w))) \<le> created_utc p
                    \<and> thr \<le> score p
                    \<and> (suffix ''.jpg'' (url p) \<or> suffix ''.png'' (url p)
                         \<or> suffix ''.jpeg'' (url p))))
         \<and> day_start (utc_now e (step w)) \<le> utc_now e (step w)
         \<and> utc_now e (step w) < day_start (utc_now e (step w)) + 86400
         \<and> day_start (utc_now e (step w)) mod 86400 = 0"
proof -
  have "keeps d thr = (\<lambda>p. of_int d \<le> created_utc p \<and> thr \<le> score p
          \<and> (suffix ''.jpg'' (url p) \<or> suffix ''.png'' (url p) \<or> suffix ''.jpeg'' (url p)))" for d
    by (rule ext) (simp add: keeps_def endswith_suffix)
  then have "fst (fetch_images e name thr limit w)
      = map url (filter (\<lambda>p. of_int (day_start (utc_now e (step w))) \<le> created_utc p
                                  \<and> thr \<le> score p
                                  \<and> (suffix ''.jpg'' (url p) \<or> suffix ''.png'' (url p)
                                       \<or> suffix ''.jpeg'' (url p))) posts)"
    using assms by (simp add: fetch_images_def Let_def)
  then show ?thesis
    using day_start_bounds [of "utc_now e (step w)"] by auto
qed

theorem fetch_images_filter_witness:
  "fst (fetch_images env_ok ''EarthPorn'' 1000 10 w_no_file) = [''https://x/a.jpg'', ''https://x/e.jpeg'']"
proof -
  have "reddit_initialized env_ok" by (simp add: env_ok_def)
  moreover have "hot env_ok (Suc (step w_no_file)) ''EarthPorn'' 10
      = ([post_a, post_low, post_gif, post_old, post_upper, post_jpeg], None)"
    by (simp add: env_ok_def)
  ultimately show ?thesis
    using fetch_images_filter [of env_ok w_no_file "''EarthPorn''" 10 _ 1000]
    by (simp add: env_ok_def w_no_file_def post_defs day_start_def endswith_suffix [symmetric] endswith_def)
qed

text \<open>
  Without the two provisos the claim fails. The listing of \<^verbatim>\<open>Art\<close> yields a post that
  passes all three tests and then ends in an exception: \<^verbatim>\<open>except Exception\<close> drops
  what was yielded and the URL is not returned. With the client not initialized, the
  listing is not asked for at all and a passing post of \<^verbatim>\<open>EarthPorn\<close> is not returned
  either.
\<close>

theorem fetch_images_drops_passing_item:
  "fst (hot env_ok (Suc (step w_no_file)) ''Art'' 10) = [post_a]
   \<and> snd (hot env_ok (Suc (step w_no_file)) ''Art'' 10) = Some (OtherException ''ServerError'')
   \<and> of_int (day_start (utc_now env_ok (step w_no_file))) \<le> created_utc post_a
   \<and> 1000 \<le> score post_a
   \<and> suffix ''.jpg'' (url post_a)
   \<and> url post_a \<notin> set (fst (fetch_images env_ok ''Art'' 1000 10 w_no_file))
   \<and> fst (fetch_images env_ok ''Art'' 1000 10 w_no_file) = []
   \<and> post_a \<in> set (fst (hot env_no_reddit (Suc (step w_no_file)) ''EarthPorn'' 10))
   \<and> fst (fetch_images env_no_reddit ''EarthPorn'' 1000 10 w_no_file) = []"
  by (simp add: fetch_images_def Let_def env_no_reddit_def env_ok_def w_no_file_def post_a_def
        day_start_def endswith_suffix [symmetric] endswith_def)

subsection \<open>C3: the reset on a new day\<close>

text \<open>
  Claim C3, as amended. When the date that \<^verbatim>\<open>load_posted_images\<close> returned equals the
  current UTC date, \<^verbatim>\<open>clear_old_images\<close> returns the loaded list unchanged, does not call
  \<^verbatim>\<open>save_posted_images\<close> and leaves the file as it is. When the date is anything else, it
  returns an empty list and calls \<^verbatim>\<open>save_posted_images\<close> once, with the empty list; the
  file then holds the empty list under the date read at save time, provided the write goes
  through.
\<close>

theorem clear_old_images_cases:
  assumes "load_posted_images e w = (Inr (stored_images, stored_date), w1)"
  shows "(stored_date = JString (utc_date (utc_now e (step w1))) \<longrightarrow>
            fst (clear_old_images e w) = Inr stored_images
          \<and> saved (since w (snd (clear_old_images e w))) = []
          \<and> posted_images_file (snd (clear_old_images e w)) = posted_images_file w)
       \<and> (stored_date \<noteq> JString (utc_date (utc_now e (step w1))) \<longrightarrow>
            fst (clear_old_images e w) = Inr (JArray [])
          \<and> saved (since w (snd (clear_old_images e w))) = [JArray []]
          \<and> (write_result_at e (Suc (step w1)) = WriteOK \<longrightarrow>
                posted_images_file (snd (clear_old_images e w))
                  = Some (dumped (JArray []) (utc_date (utc_now e (step w1 + 2))))))"
  using assms by (rule clear_old_images_branches)

theorem clear_old_images_cases_witness:
  "fst (clear_old_images env_ok w_today) = Inr (JArray [JString ''https://x/a.jpg''])
   \<and> saved (since w_today (snd (clear_old_images env_ok w_today))) = []
   \<and> posted_images_file (snd (clear_old_images env_ok w_today)) = posted_images_file w_today
   \<and> fst (clear_old_images env_ok w_yesterday) = Inr (JArray [])
   \<and> saved (since w_yesterday (snd (clear_old_images env_ok w_yesterday))) = [JArray []]
   \<and> posted_images_file (snd (clear_old_images env_ok w_yesterday))
        = Some (dumped (JArray []) ''2024-01-02'')"
proof -
  have today: "load_posted_images env_ok w_today
      = (Inr (JArray [JString ''https://x/a.jpg''], JString ''2024-01-02''), tick w_today)"
    by (simp add: load_posted_images_def load_body_def read_json_def dumped_def env_ok_def w_today_def)
  have yesterday: "load_posted_images env_ok w_yesterday
      = (Inr (JArray [JString ''https://x/a.jpg''], JString ''2024-01-01''), tick w_yesterday)"
    by (simp add: load_posted_images_def load_body_def read_json_def dumped_def env_ok_def
          w_yesterday_def)
  have now: "utc_now env_ok k = 1704196800" and ok: "write_result_at env_ok k = WriteOK" for k
    by (simp_all add: env_ok_def)
  show ?thesis
    using clear_old_images_cases [OF today] clear_old_images_cases [OF yesterday]
    by (simp add: now ok date_2024_01_02)
qed

text \<open>
  Without the proviso the claim fails: the store is dated 1 January, the clock says
  2 January, the write is refused; the empty list is returned and the file still holds
  yesterday's record.
\<close>

theorem clear_old_images_write_fails:
  "fst (load_posted_images env_read_only w_yesterday)
      = Inr (JArray [JString ''https://x/a.jpg''], JString ''2024-01-01'')
   \<and> utc_date (utc_now env_read_only 1) = ''2024-01-02''
   \<and> fst (clear_old_images env_read_only w_yesterday) = Inr (JArray [])
   \<and> posted_images_file (snd (clear_old_images env_read_only w_yesterday))
        = Some (dumped (JArray [JString ''https://x/a.jpg'']) ''2024-01-01'')"
  by (simp add: run_defs env_read_only_def env_ok_def w_yesterday_def date_2024_01_02)

subsection \<open>C4: the store after a successful send\<close>

text \<open>
  Claim C4, as amended. When \<^verbatim>\<open>send_photo\<close> has returned for a URL in a call of
  \<^verbatim>\<open>send_image_to_telegram\<close> on a list, and the write of the store goes through, then
  at the return of the call the file holds the list with the URL appended, under the date
  of the clock reading that \<^verbatim>\<open>save_posted_images\<close> makes itself (the fourth call of the
  publish, after the request, the send and the \<^verbatim>\<open>open\<close>).
\<close>

theorem publish_persists_url:
  assumes sent: "SendPhoto u c None \<in> set (since w (snd (send_image_to_telegram e u c (JArray xs) w)))"
    and written: "write_result_at e (step w + 2) = WriteOK"
  shows "posted_images_file (snd (send_image_to_telegram e u c (JArray xs) w))
           = Some (dumped (JArray (xs @ [JString u])) (utc_date (utc_now e (step w + 3))))"
proof -
  let ?r = "send_image_to_telegram e u c (JArray xs) w"
  consider
      (http_error) x where "http_get e (step w) u = Inl x"
    | (bad_status) s where "http_get e (step w) u = Inr s" "s \<noteq> 200"
    | (send_error) x where "http_get e (step w) u = Inr 200" "send_photo e (Suc (step w)) u c = Some x"
    | (ok) "http_get e (step w) u = Inr 200" "send_photo e (Suc (step w)) u c = None"
    by (cases "http_get e (step w) u"; cases "send_photo e (Suc (step w)) u c") auto
  then show ?thesis
  proof cases
    case http_error
    obtain m where "trace (snd ?r) = trace w @ [HttpGet u, Log ERROR m]"
      using handle_send_error_facts(3) [of u x "tick (emit (HttpGet u) w)"]
      by (auto simp: publish_http_error [OF http_error])
    then have "since w (snd ?r) = [HttpGet u, Log ERROR m]" by simp
    with sent show ?thesis by simp
  next
    case bad_status
    have "since w (snd ?r) = [HttpGet u, Log WARNING (ImageFetchFailed u s)]"
      by (simp add: publish_bad_status [OF bad_status])
    with sent show ?thesis by simp
  next
    case send_error
    obtain m where "trace (snd ?r) = trace w @ [HttpGet u, SendPhoto u c (Some x), Log ERROR m]"
      using handle_send_error_facts(3)
              [of u x "tick (emit (SendPhoto u c (Some x)) (tick (emit (HttpGet u) w)))"]
      by (auto simp: publish_send_error [OF send_error])
    then have "since w (snd ?r) = [HttpGet u, SendPhoto u c (Some x), Log ERROR m]" by simp
    with sent show ?thesis by simp
  next
    case ok
    have "py_append (JArray xs) u = Inr (JArray (xs @ [JString u]))" by simp
    from publish_ok [OF ok this] written show ?thesis
      by (simp add: save_ok eval_nat_numeral)
  qed
qed

text \<open>
  The witness runs the publish across midnight: every reading of the clock before the save
  would have said 1 January, the file is dated 2 January.
\<close>

theorem publish_persists_url_witness:
  "utc_date (utc_now env_midnight (step w_yesterday + 2)) = ''2024-01-01''
   \<and> posted_images_file (snd (send_image_to_telegram env_midnight ''https://x/z.png'' ''From r/Art''
       (JArray [JString ''https://x/a.jpg'']) w_yesterday))
     = Some (dumped (JArray [JString ''https://x/a.jpg'', JString ''https://x/z.png'']) ''2024-01-02'')"
proof -
  have "SendPhoto ''https://x/z.png'' ''From r/Art'' None
      \<in> set (since w_yesterday (snd (send_image_to_telegram env_midnight ''https://x/z.png''
           ''From r/Art'' (JArray [JString ''https://x/a.jpg'']) w_yesterday)))"
    by (simp add: send_image_to_telegram_def save_posted_images_def Let_def env_midnight_def
          env_ok_def w_yesterday_def since_def)
  moreover have "write_result_at env_midnight (step w_yesterday + 2) = WriteOK"
    by (simp add: env_midnight_def env_ok_def)
  moreover have "utc_date (utc_now env_midnight (step w_yesterday + 3)) = ''2024-01-02''"
    and "utc_date (utc_now env_midnight (step w_yesterday + 2)) = ''2024-01-01''"
    by (simp_all add: env_midnight_def env_ok_def w_yesterday_def midnight_2024_01_02
          last_second_2024_01_01)
  ultimately show ?thesis
    using publish_persists_url [of "''https://x/z.png''" "''From r/Art''" w_yesterday env_midnight
        "[JString ''https://x/a.jpg'']"]
    by simp
qed

text \<open>
  Without the proviso the claim fails: the send succeeds, the write is refused, and there
  is no store file afterwards.
\<close>

theorem publish_write_fails:
  "SendPhoto ''https://x/z.png'' ''From r/Art'' None
      \<in> set (since w_no_file (snd (send_image_to_telegram env_read_only ''https://x/z.png''
           ''From r/Art'' (JArray []) w_no_file)))
   \<and> posted_images_file (snd (send_image_to_telegram env_read_only ''https://x/z.png''
           ''From r/Art'' (JArray []) w_no_file)) = None"
  by (simp add: send_image_to_telegram_def save_posted_images_def Let_def env_read_only_def
        env_ok_def w_no_file_def since_def)

subsection \<open>C5: no update before the send has succeeded\<close>

text \<open>
  Claim C5. In every execution of \<^verbatim>\<open>send_image_to_telegram\<close>, whatever the services
  answer and whatever the posted set is, an append to the posted set or a call of
  \<^verbatim>\<open>save_posted_images\<close> happens only after \<^verbatim>\<open>send_photo\<close> has returned normally
  for this URL; and when no send succeeded, the posted set and the store file are as
  before.
\<close>

theorem publish_updates_only_after_send:
  "(\<forall>i < length (since w (snd (send_image_to_telegram e u c p w))).
       is_update (since w (snd (send_image_to_telegram e u c p w)) ! i)
         \<longrightarrow> (\<exists>j<i. since w (snd (send_image_to_telegram e u c p w)) ! j = SendPhoto u c None))
   \<and> (sent_urls (since w (snd (send_image_to_telegram e u c p w))) = []
         \<longrightarrow> fst (send_image_to_telegram e u c p w) = p
             \<and> posted_images_file (snd (send_image_to_telegram e u c p w)) = posted_images_file w)"
proof -
  let ?r = "send_image_to_telegram e u c p w"
  let ?ok = "SendPhoto u c None"
  consider
      (http_error) x where "http_get e (step w) u = Inl x"
    | (bad_status) s where "http_get e (step w) u = Inr s" "s \<noteq> 200"
    | (send_error) x where "http_get e (step w) u = Inr 200" "send_photo e (Suc (step w)) u c = Some x"
    | (append_error) x where "http_get e (step w) u = Inr 200" "send_photo e (Suc (step w)) u c = None"
        "py_append p u = Inl x"
    | (ok) p' where "http_get e (step w) u = Inr 200" "send_photo e (Suc (step w)) u c = None"
        "py_append p u = Inr p'"
    by (cases "http_get e (step w) u"; cases "send_photo e (Suc (step w)) u c"; cases "py_append p u")
       auto
  then show ?thesis
  proof cases
    case http_error
    obtain m where "trace (snd ?r) = trace w @ [HttpGet u, Log ERROR m]"
      using handle_send_error_facts(3) [of u x "tick (emit (HttpGet u) w)"]
      by (auto simp: publish_http_error [OF http_error])
    then have "since w (snd ?r) = [HttpGet u, Log ERROR m]" by simp
    then show ?thesis
      by (simp add: publish_http_error [OF http_error] no_updates)
  next
    case bad_status
    have "since w (snd ?r) = [HttpGet u, Log WARNING (ImageFetchFailed u s)]"
      by (simp add: publish_bad_status [OF bad_status])
    then show ?thesis
      by (simp add: publish_bad_status [OF bad_status] no_updates)
  next
    case send_error
    obtain m where "trace (snd ?r) = trace w @ [HttpGet u, SendPhoto u c (Some x), Log ERROR m]"
      using handle_send_error_facts(3)
              [of u x "tick (emit (SendPhoto u c (Some x)) (tick (emit (HttpGet u) w)))"]
      by (auto simp: publish_send_error [OF send_error])
    then have "since w (snd ?r) = [HttpGet u, SendPhoto u c (Some x), Log ERROR m]" by simp
    then show ?thesis
      by (simp add: publish_send_error [OF send_error] no_updates)
  next
    case append_error
    obtain m where "trace (snd ?r) = trace w @ [HttpGet u, ?ok, Log ERROR m]"
      using handle_send_error_facts(3)
              [of u x "tick (emit ?ok (tick (emit (HttpGet u) w)))"]
      by (auto simp: publish_append_error [OF append_error])
    then have "since w (snd ?r) = [HttpGet u, ?ok, Log ERROR m]" by simp
    then show ?thesis
      by (simp add: no_updates)
  next
    case ok
    obtain logs where "trace (snd ?r)
        = trace w @ [HttpGet u] @ ?ok # (Append u # SaveStore p' # logs @ [Log INFO (PostedImage u)])"
      using save_trace [of e p' "emit (Append u) (tick (emit ?ok (tick (emit (HttpGet u) w))))"]
      by (auto simp: publish_ok [OF ok])
    then have evs: "since w (snd ?r)
        = [HttpGet u] @ ?ok # (Append u # SaveStore p' # logs @ [Log INFO (PostedImage u)])"
      by simp
    show ?thesis
      unfolding evs using updates_follow [of "[HttpGet u]" ?ok] by simp
  qed
qed

theorem publish_updates_only_after_send_witness:
  "since w_today (snd (send_image_to_telegram env_ok ''https://x/z.png'' ''From r/Art''
       (JArray [JString ''https://x/a.jpg'']) w_today)) ! 2 = Append ''https://x/z.png''
   \<and> (\<exists>j<2. since w_today (snd (send_image_to_telegram env_ok ''https://x/z.png'' ''From r/Art''
       (JArray [JString ''https://x/a.jpg'']) w_today)) ! j
          = SendPhoto ''https://x/z.png'' ''From r/Art'' None)"
proof -
  let ?evs = "since w_today (snd (send_image_to_telegram env_ok ''https://x/z.png'' ''From r/Art''
       (JArray [JString ''https://x/a.jpg'']) w_today))"
  have evs: "?evs = [HttpGet ''https://x/z.png'', SendPhoto ''https://x/z.png'' ''From r/Art'' None,
      Append ''https://x/z.png'',
      SaveStore (JArray [JString ''https://x/a.jpg'', JString ''https://x/z.png'']),
      Log INFO (PostedImage ''https://x/z.png'')]"
    by (simp add: send_image_to_telegram_def save_posted_images_def Let_def env_ok_def w_today_def
          since_def)
  have "2 < length ?evs" and "is_update (?evs ! 2)"
    by (simp_all add: evs)
  with publish_updates_only_after_send
         [of w_today env_ok "''https://x/z.png''" "''From r/Art''" "JArray [JString ''https://x/a.jpg'']"]
  have "\<exists>j<2. ?evs ! j = SendPhoto ''https://x/z.png'' ''From r/Art'' None"
    by blast
  then show ?thesis
    by (simp add: evs)
qed

subsection \<open>C6: a URL that cannot be retrieved\<close>

text \<open>
  Claim C6. When the retrievability check answers with a status other than 200, the
  Publisher does exactly two things, the request and a warning in the log: it does not
  call \<^verbatim>\<open>send_photo\<close>, leaves the caller's posted set as it is, does not append, does
  not call \<^verbatim>\<open>save_posted_images\<close>, and the store file is untouched.
\<close>

theorem publish_skips_unretrievable:
  assumes "http_get e (step w) u = Inr s" and "s \<noteq> 200"
  shows "since w (snd (send_image_to_telegram e u c p w)) = [HttpGet u, Log WARNING (ImageFetchFailed u s)]
       \<and> send_calls (since w (snd (send_image_to_telegram e u c p w))) = []
       \<and> fst (send_image_to_telegram e u c p w) = p
       \<and> appended_urls (since w (snd (send_image_to_telegram e u c p w))) = []
       \<and> saved (since w (snd (send_image_to_telegram e u c p w))) = []
       \<and> posted_images_file (snd (send_image_to_telegram e u c p w)) = posted_images_file w"
  by (simp add: publish_bad_status [OF assms])

theorem publish_skips_unretrievable_witness:
  "since w_today (snd (send_image_to_telegram env_not_found ''https://x/z.png'' ''From r/Art''
       (JArray [JString ''https://x/a.jpg'']) w_today))
     = [HttpGet ''https://x/z.png'', Log WARNING (ImageFetchFailed ''https://x/z.png'' 404)]
   \<and> fst (send_image_to_telegram env_not_found ''https://x/z.png'' ''From r/Art''
       (JArray [JString ''https://x/a.jpg'']) w_today) = JArray [JString ''https://x/a.jpg'']
   \<and> posted_images_file (snd (send_image_to_telegram env_not_found ''https://x/z.png'' ''From r/Art''
       (JArray [JString ''https://x/a.jpg'']) w_today)) = posted_images_file w_today"
proof -
  have "http_get env_not_found (step w_today) ''https://x/z.png'' = Inr 404"
    by (simp add: env_not_found_def env_ok_def)
  moreover have "(404::int) \<noteq> 200" by simp
  ultimately show ?thesis
    using publish_skips_unretrievable [of env_not_found w_today "''https://x/z.png''" 404]
    by simp
qed

subsection \<open>C7: loading never raises\<close>

text \<open>
  Claim C7 says that \<^verbatim>\<open>load_posted_images\<close> returns an empty list and an empty date on
  every failure and never lets an exception out. The handler names
  \<^verbatim>\<open>json.JSONDecodeError\<close> and \<^verbatim>\<open>IOError\<close> only: a file whose bytes are not UTF-8
  raises \<^verbatim>\<open>UnicodeDecodeError\<close>, and a file that holds JSON other than an object (here
  \<^verbatim>\<open>[]\<close>) raises \<^verbatim>\<open>AttributeError\<close> at \<^verbatim>\<open>data.get\<close>; both leave the function.
  The cases that the handler does cover are \<open>load_posted_images_handled\<close> and
  \<open>load_posted_images_object\<close> above.
\<close>

theorem load_posted_images_raises:
  "fst (load_posted_images env_ok w_undecodable) = Inl UnicodeDecodeError
   \<and> fst (load_posted_images env_ok w_array) = Inl AttributeError"
  by (simp add: load_posted_images_def load_body_def read_json_def env_ok_def
        w_undecodable_def w_array_def)

subsection \<open>C8: a failed fetch\<close>

text \<open>
  Claim C8. When the source client was not initialized, \<^verbatim>\<open>fetch_images\<close> returns the
  empty list at once, having logged an error and called nothing. When the listing of the
  community ends in an exception, of whatever class, it returns the empty list, logs the
  error and leaves the store file alone. In both cases the run goes on with the remaining
  communities, with the same posted set.
\<close>

theorem fetch_images_failure:
  "(\<not> reddit_initialized e \<longrightarrow>
       fetch_images e name thr limit w = ([], emit (Log ERROR RedditNotInitialized) w))
   \<and> (reddit_initialized e \<and> snd (hot e (Suc (step w)) name limit) = Some x \<longrightarrow>
         fst (fetch_images e name thr limit w) = []
       \<and> since w (snd (fetch_images e name thr limit w)) = [Log ERROR (FetchError name x)]
       \<and> posted_images_file (snd (fetch_images e name thr limit w)) = posted_images_file w)
   \<and> (\<not> reddit_initialized e \<or> snd (hot e (Suc (step w)) s 10) = Some x \<longrightarrow>
         post_subreddits e (s # ss) p w
           = post_subreddits e ss p (snd (fetch_images e s 1000 10 w)))"
  by (auto simp: fetch_images_def Let_def)

theorem fetch_images_failure_witness:
  "fetch_images env_no_reddit ''EarthPorn'' 1000 10 w_today
      = ([], emit (Log ERROR RedditNotInitialized) w_today)
   \<and> fst (fetch_images env_ok ''Art'' 1000 10 w_today) = []
   \<and> since w_today (snd (fetch_images env_ok ''Art'' 1000 10 w_today))
        = [Log ERROR (FetchError ''Art'' (OtherException ''ServerError''))]
   \<and> post_subreddits env_ok [''Art'', ''spaceporn''] (JArray []) w_today
        = post_subreddits env_ok [''spaceporn''] (JArray [])
            (snd (fetch_images env_ok ''Art'' 1000 10 w_today))"
proof -
  have a: "\<not> reddit_initialized env_no_reddit"
    by (simp add: env_no_reddit_def)
  have b: "reddit_initialized env_ok \<and>
      snd (hot env_ok (Suc (step w_today)) ''Art'' 10) = Some (OtherException ''ServerError'')"
    by (simp add: env_ok_def)
  show ?thesis
    using a b
      fetch_images_failure [where e = env_no_reddit and name = "''EarthPorn''" and thr = 1000
         and limit = 10 and w = w_today]
      fetch_images_failure [where e = env_ok and name = "''Art''" and thr = 1000 and limit = 10
         and w = w_today and x = "OtherException ''ServerError''" and s = "''Art''"
         and ss = "[''spaceporn'']" and p = "JArray []"]
    by simp
qed

subsection \<open>C9: a failed load is a new day\<close>

text \<open>
  Claim C9, as amended. When the store file is missing, cannot be read (\<^verbatim>\<open>IOError\<close>) or
  does not hold JSON (\<^verbatim>\<open>JSONDecodeError\<close>), the load returns the empty list and the empty
  date; the empty date is no date that the clock can give, so \<^verbatim>\<open>clear_old_images\<close>
  returns the empty list and calls \<^verbatim>\<open>save_posted_images\<close> with the empty list, and the
  file holds the empty list under the current date provided the write goes through.
\<close>

theorem failed_load_resets:
  assumes "posted_images_file w = None
           \<or> (\<exists>c. posted_images_file w = Some c \<and> read_fails e (step w))
           \<or> posted_images_file w = Some Malformed"
  shows "fst (load_posted_images e w) = Inr (JArray [], JString '''')
       \<and> (\<forall>t. JString '''' \<noteq> JString (utc_date t))
       \<and> fst (clear_old_images e w) = Inr (JArray [])
       \<and> saved (since w (snd (clear_old_images e w))) = [JArray []]
       \<and> (write_result_at e (Suc (step (snd (load_posted_images e w)))) = WriteOK \<longrightarrow>
            posted_images_file (snd (clear_old_images e w))
              = Some (dumped (JArray [])
                        (utc_date (utc_now e (step (snd (load_posted_images e w)) + 2)))))"
proof -
  obtain w1 where load: "load_posted_images e w = (Inr (JArray [], JString ''''), w1)"
    using load_posted_images_handled(1) [OF assms] by (cases "load_posted_images e w") auto
  have "JString '''' \<noteq> JString (utc_date t)" for t
    using utc_date_nonempty [of t] by auto
  then show ?thesis
    using clear_old_images_branches [OF load] by (simp add: load)
qed

theorem failed_load_resets_witness:
  "fst (load_posted_images env_ok w_cut_off) = Inr (JArray [], JString '''')
   \<and> fst (clear_old_images env_ok w_cut_off) = Inr (JArray [])
   \<and> posted_images_file (snd (clear_old_images env_ok w_cut_off))
        = Some (dumped (JArray []) ''2024-01-02'')"
proof -
  have "posted_images_file w_cut_off = Some Malformed"
    by (simp add: w_cut_off_def)
  then have "posted_images_file w_cut_off = None
           \<or> (\<exists>c. posted_images_file w_cut_off = Some c \<and> read_fails env_ok (step w_cut_off))
           \<or> posted_images_file w_cut_off = Some Malformed"
    by simp
  from failed_load_resets [OF this] show ?thesis
    by (simp add: env_ok_def date_2024_01_02)
qed

text \<open>
  Without the proviso the claim fails: the cut-off file cannot be overwritten on the
  read-only file system and stays as it is.
\<close>

theorem failed_load_not_overwritten:
  "fst (load_posted_images env_read_only w_cut_off) = Inr (JArray [], JString '''')
   \<and> fst (clear_old_images env_read_only w_cut_off) = Inr (JArray [])
   \<and> posted_images_file (snd (clear_old_images env_read_only w_cut_off)) = Some Malformed"
  by (simp add: run_defs env_read_only_def env_ok_def w_cut_off_def date_2024_01_02)

subsection \<open>C10: no duplicates in the posted list\<close>

text \<open>
  Claim C10. When the list that \<^verbatim>\<open>clear_old_images\<close> returns has no duplicates, the
  posted list ends the run as that list followed by the URLs appended during the run, and
  every list on the way (the loaded list followed by the first \<open>k\<close> appended URLs) has no
  duplicates.
\<close>

theorem posted_images_stay_distinct:
  assumes "fst (clear_old_images e w) = Inr (JArray xs)" and "distinct xs"
  shows "fst (post_reddit_images e w)
           = Inr (JArray (xs @ map JString (appended_urls (since w (snd (post_reddit_images e w))))))
       \<and> (\<forall>k. distinct (xs @ map JString
                 (take k (appended_urls (since w (snd (post_reddit_images e w)))))))"
proof -
  obtain w1 where clear: "clear_old_images e w = (Inr (JArray xs), w1)"
    using assms(1) by (cases "clear_old_images e w") auto
  obtain logs where logs: "trace w1 = trace w @ logs" "appended_urls logs = []"
    using clear_old_images_world [of e w] clear by auto
  let ?run = "post_subreddits e subreddits (JArray xs) w1"
  have run: "post_reddit_images e w = ?run"
    using clear by (simp add: post_reddit_images_def)
  obtain q evs where q: "?run = (Inr q, snd ?run)" and acc: "accounted e [] xs w1 q (snd ?run) evs"
    using post_subreddits_list [of e subreddits xs w1 "[]"] by blast
  have "trace (snd ?run) = trace w @ (logs @ evs)"
    using acc logs by (simp add: accounted_def)
  then have app: "appended_urls (since w (snd ?run)) = appended_urls evs"
    using logs by simp
  have "fst ?run = Inr q"
    using q by (metis fst_conv)
  then have "fst ?run = Inr (JArray (xs @ map JString (appended_urls evs)))"
    using acc by (simp add: accounted_def)
  moreover have "distinct (xs @ map JString (take k (appended_urls evs)))" for k
  proof -
    have "distinct (take k (appended_urls evs))"
      using acc by (simp add: accounted_def)
    moreover have "\<forall>u \<in> set (take k (appended_urls evs)). JString u \<notin> set xs"
      using acc by (auto simp: accounted_def dest: in_set_takeD)
    ultimately show ?thesis
      using assms(2) by (auto simp: distinct_map inj_on_def)
  qed
  ultimately show ?thesis
    unfolding run app by simp
qed

theorem posted_images_stay_distinct_witness:
  "fst (post_reddit_images env_ok w_today)
     = Inr (JArray [JString ''https://x/a.jpg'', JString ''https://x/e.jpeg''])
   \<and> distinct [JString ''https://x/a.jpg'', JString ''https://x/e.jpeg'']"
proof -
  have clear: "fst (clear_old_images env_ok w_today) = Inr (JArray [JString ''https://x/a.jpg''])"
    by (simp add: run_defs env_ok_def w_today_def date_2024_01_02)
  have app: "appended_urls (since w_today (snd (post_reddit_images env_ok w_today))) = [''https://x/e.jpeg'']"
    by (simp add: run_defs env_ok_def w_today_def post_defs date_2024_01_02)
  have "distinct [JString ''https://x/a.jpg'']" by simp
  from posted_images_stay_distinct [OF clear this] show ?thesis
    unfolding app by (auto dest: spec [of _ 1])
qed

end
